theory Spec2Isabelle
  imports Complex_Main "HOL-Library.Word" "HOL-Library.Log_Nat" "HOL-Library.Monad_Syntax"
begin

section \<open>Big-integer primitives used by the proof suite\<close>

text \<open>
  Go's \<^verbatim>\<open>new(big.Int).Exp(x, y, nil)\<close>: with no modulus the result is \<open>x ** y\<close>,
  and it is \<open>1\<close> when \<open>y \<le> 0\<close>.
\<close>

definition big_exp_nomod :: "int \<Rightarrow> int \<Rightarrow> int" where
  "big_exp_nomod x y = (if y \<le> 0 then 1 else x ^ nat y)"

section \<open>Constants derived from a curve (zkproofs: Ell, NewEll, GetEll)\<close>

text \<open>
  The part of \<^verbatim>\<open>elliptic.CurveParams\<close> that the range parameters read: the order
  \<open>N\<close> of the base point (field \<open>ec_N\<close>) and the \<open>BitSize\<close> of the curve (field
  \<open>ec_BitSize\<close>).
\<close>

record CurveParams =
  ec_N :: int
  ec_BitSize :: int

record Ell =
  Ell :: int
  TwoPowEll :: int
  Epsilon :: int
  EllPlusEpsilon :: int
  TwoPowEllPlusEpsilon :: int

definition NewEll :: "int \<Rightarrow> Ell" where
  "NewEll ell =
     (let two = 2;
          twoPowEll = big_exp_nomod two ell;
          epsilon = ell * two;
          ellPlusEpsilon = ell + epsilon;
          twoPowEllPlusEpsilon = big_exp_nomod two ellPlusEpsilon
      in \<lparr> Ell = ell,
           TwoPowEll = twoPowEll,
           Epsilon = epsilon,
           EllPlusEpsilon = ellPlusEpsilon,
           TwoPowEllPlusEpsilon = twoPowEllPlusEpsilon \<rparr>)"

definition GetEll :: "CurveParams \<Rightarrow> int" where
  "GetEll ec = ec_BitSize ec"

definition Q :: "CurveParams \<Rightarrow> int" where
  "Q ec = ec_N ec"

text \<open>
  \<^verbatim>\<open>val.Cmp(min) != 1\<close> holds when \<open>val\<close> is not greater than \<open>min\<close>, and
  \<^verbatim>\<open>val.Cmp(max) != -1\<close> when \<open>val\<close> is not less than \<open>max\<close>.
\<close>

definition InRange :: "Ell \<Rightarrow> int \<Rightarrow> bool" where
  "InRange ell val =
     (let min = (- 1) * TwoPowEllPlusEpsilon ell;
          max = TwoPowEllPlusEpsilon ell
      in if \<not> (min < val) \<or> \<not> (val < max) then False else True)"

definition InRangeEll :: "Ell \<Rightarrow> int \<Rightarrow> bool" where
  "InRangeEll ell val =
     (let min = (- 1) * TwoPowEll ell;
          max = TwoPowEll ell
      in if \<not> (min < val) \<or> \<not> (val < max) then False else True)"

definition IsZero :: "int \<Rightarrow> bool" where
  "IsZero val = (if val = 0 then True else False)"

text \<open>The curve secp256k1: the order of its base point and its bit size.\<close>

definition secp256k1 :: CurveParams where
  "secp256k1 =
     \<lparr> ec_N = 115792089237316195423570985008687907852837564279074904382605163141518161494337,
       ec_BitSize = 256 \<rparr>"

section \<open>Round messages and errors (tss)\<close>

text \<open>
  The content variants of the signing session's wire messages. \<open>CanAccept\<close> inspects
  only the variant of a message, never its payload, so the payload is left out.
\<close>

datatype MessageContent =
    SignRound1Message
  | SignRound2Message1
  | SignRound2Message2
  | SignRound3Message
  | SignRound4Message
  | SignRound5Message

text \<open>
  A parsed message with its routing: sender index, recipient indices (\<open>None\<close> when the
  message names no recipient) and the broadcast flag read by \<open>IsBroadcast()\<close>.
\<close>

record ParsedMessage =
  Content :: MessageContent
  From :: nat
  To :: "nat list option"
  IsBroadcast :: bool

text \<open>
  \<open>tss.Error\<close> as built by \<open>round.WrapError(err, culprits...)\<close>: the cause, the round
  number, the party that raises it (the victim) and the culprits.
\<close>

record tss_Error =
  cause :: string
  round_number :: int
  victim :: nat
  culprits :: "nat list"

section \<open>Signing round 2 (cggplus)\<close>

text \<open>
  The part of \<open>round2\<close> that \<open>Start\<close>, \<open>Update\<close>, \<open>CanAccept\<close> and \<open>NextRound\<close>
  read and write: the base round's flags, the own party index, the stored round-2
  messages (\<open>None\<close> is a nil entry) and the outbound channel.
\<close>

record round2 =
  started :: bool
  number :: int
  PartyIndex :: nat
  ok :: "bool list"
  signRound2Message1s :: "ParsedMessage option list list"
  signRound2Message2s :: "ParsedMessage option list"
  out :: "ParsedMessage list"

definition WrapError :: "round2 \<Rightarrow> string \<Rightarrow> nat list \<Rightarrow> tss_Error" where
  "WrapError rnd msg cs =
     \<lparr> cause = msg, round_number = number rnd, victim = PartyIndex rnd, culprits = cs \<rparr>"

definition CanAccept :: "ParsedMessage \<Rightarrow> bool" where
  "CanAccept msg =
     (if Content msg = SignRound2Message1 then IsBroadcast msg
      else if Content msg = SignRound2Message2 then IsBroadcast msg
      else False)"

text \<open>
  The inner loop of \<open>Update\<close> over the messages of peer \<open>i\<close>, from column \<open>j\<close> on:
  the entry at \<open>j = i\<close> is skipped, a nil or unacceptable entry ends the check.
\<close>

fun Update_row :: "nat \<Rightarrow> nat \<Rightarrow> ParsedMessage option list \<Rightarrow> bool" where
  "Update_row i j [] = True"
| "Update_row i j (msg # rest) =
     (if i = j then Update_row i (Suc j) rest
      else (case msg of
              None \<Rightarrow> False
            | Some m \<Rightarrow> if \<not> CanAccept m then False else Update_row i (Suc j) rest))"

text \<open>
  The outer loop of \<open>Update\<close>, from row \<open>i\<close> on. The result is \<open>None\<close> where the Go
  code panics on an index out of range (\<open>round.ok[i]\<close>, \<open>signRound2Message2s[i]\<close>);
  otherwise it is the returned flag (the returned error is always nil) and the round
  with its updated \<open>ok\<close> flags.
\<close>

fun Update_loop :: "round2 \<Rightarrow> nat \<Rightarrow> ParsedMessage option list list \<Rightarrow> (bool \<times> round2) option" where
  "Update_loop rnd i [] = Some (True, rnd)"
| "Update_loop rnd i (msgArray # rest) =
     (if i = PartyIndex rnd then Update_loop rnd (Suc i) rest
      else if \<not> i < length (ok rnd) then None
      else if ok rnd ! i then Update_loop rnd (Suc i) rest
      else if \<not> Update_row i 0 msgArray then Some (False, rnd)
      else if \<not> i < length (signRound2Message2s rnd) then None
      else (case signRound2Message2s rnd ! i of
              None \<Rightarrow> Some (False, rnd)
            | Some msg2 \<Rightarrow>
                if \<not> CanAccept msg2 then Some (False, rnd)
                else Update_loop (rnd\<lparr>ok := (ok rnd)[i := True]\<rparr>) (Suc i) rest))"

definition Update :: "round2 \<Rightarrow> (bool \<times> round2) option" where
  "Update rnd = Update_loop rnd 0 (signRound2Message1s rnd)"

definition NextRound :: "round2 \<Rightarrow> round2" where
  "NextRound rnd = rnd\<lparr>started := False\<rparr>"

text \<open>
  \<open>resetOK\<close> of the base round clears every \<open>ok\<close> flag.
\<close>

definition resetOK :: "round2 \<Rightarrow> round2" where
  "resetOK rnd = rnd\<lparr>ok := map (\<lambda>_. False) (ok rnd)\<rparr>"

text \<open>
  The second loop of \<open>Start\<close>: for every party \<open>j\<close> other than \<open>i\<close> (the party
  indices from \<open>j\<close> on are \<open>js\<close>) the message for \<open>j\<close> is stored at
  \<open>signRound2Message1s[i][j]\<close> and sent on \<open>out\<close>. \<open>mk1 to from\<close> stands for
  \<open>NewSignRound2Message1\<close> applied to the values computed for that peer.
\<close>

fun Start_send :: "(nat \<Rightarrow> nat \<Rightarrow> ParsedMessage) \<Rightarrow> round2 \<Rightarrow> nat list \<Rightarrow> round2" where
  "Start_send mk1 rnd [] = rnd"
| "Start_send mk1 rnd (j # js) =
     (let i = PartyIndex rnd in
      if j = i then Start_send mk1 rnd js
      else
        (let r2msg1 = mk1 j i;
             row = (signRound2Message1s rnd ! i)[j := Some r2msg1]
         in Start_send mk1
              (rnd\<lparr>signRound2Message1s := (signRound2Message1s rnd)[i := row],
                     out := out rnd @ [r2msg1]\<rparr>) js))"

text \<open>
  \<open>Start\<close>. The per-peer proof computations (\<open>BobRespondsGamma\<close>, \<open>BobRespondsW\<close>,
  \<open>ComputeProofPsiPrime\<close>) call packages outside this development; \<open>work\<close> is the
  error they leave on the error channel, if any, and \<open>mk1\<close>, \<open>mk2\<close> build the two
  outbound messages from their results. \<open>partyCount\<close> is
  \<open>len(round.Parties().IDs())\<close>. The stores into \<open>round.ok\<close> and the message
  slices are list updates: at an index outside the slice, where the Go code panics,
  they leave the slice as it is.
\<close>

definition Start ::
  "tss_Error option \<Rightarrow> (nat \<Rightarrow> nat \<Rightarrow> ParsedMessage) \<Rightarrow> (nat \<Rightarrow> ParsedMessage) \<Rightarrow> nat
     \<Rightarrow> round2 \<Rightarrow> tss_Error option \<times> round2" where
  "Start work mk1 mk2 partyCount rnd =
     (if started rnd then (Some (WrapError rnd ''round already started'' []), rnd)
      else
        (let r1 = resetOK (rnd\<lparr>number := 2, started := True\<rparr>);
             i = PartyIndex r1;
             r2 = r1\<lparr>ok := (ok r1)[i := True]\<rparr>
         in case work of
              Some err \<Rightarrow> (Some err, r2)
            | None \<Rightarrow>
                (let r3 = Start_send mk1 r2 [0..<partyCount];
                     r2msg2 = mk2 i
                 in (None, r3\<lparr>signRound2Message2s := (signRound2Message2s r3)[i := Some r2msg2],
                                   out := out r3 @ [r2msg2]\<rparr>))))"

section \<open>Resharing round 5 (eddsa)\<close>

record LocalPartySaveData =
  BigXj :: "(int \<times> int) list"
  ShareID :: int
  Xi :: int
  Ks :: "int list"

text \<open>
  The state \<open>round5.Start\<close> touches: the base round's flags, the committee
  membership of the party, its key, the temporary values of the run, the data to
  save, the input share and the \<open>end\<close> channel.
\<close>

record round5 =
  r5_started :: bool
  r5_number :: int
  r5_PartyIndex :: nat
  r5_KeyInt :: int
  r5_oldOK :: "bool list"
  r5_newOK :: "bool list"
  IsNewCommittee :: bool
  IsOldCommittee :: bool
  temp_newBigXjs :: "(int \<times> int) list"
  temp_newXi :: int
  temp_newKs :: "int list"
  save :: LocalPartySaveData
  input_Xi :: int
  end_ch :: "LocalPartySaveData list"

definition r5_WrapError :: "round5 \<Rightarrow> string \<Rightarrow> nat list \<Rightarrow> tss_Error" where
  "r5_WrapError rnd msg cs =
     \<lparr> cause = msg, round_number = r5_number rnd, victim = r5_PartyIndex rnd, culprits = cs \<rparr>"

definition allOldOK :: "round5 \<Rightarrow> round5" where
  "allOldOK rnd = rnd\<lparr>r5_oldOK := map (\<lambda>_. True) (r5_oldOK rnd)\<rparr>"

definition allNewOK :: "round5 \<Rightarrow> round5" where
  "allNewOK rnd = rnd\<lparr>r5_newOK := map (\<lambda>_. True) (r5_newOK rnd)\<rparr>"

definition r5_Start :: "round5 \<Rightarrow> tss_Error option \<times> round5" where
  "r5_Start rnd =
     (if r5_started rnd then (Some (r5_WrapError rnd ''round already started'' []), rnd)
      else
        (let r1 = allNewOK (allOldOK (rnd\<lparr>r5_number := 5, r5_started := True\<rparr>));
             r2 =
               (if IsNewCommittee r1 then
                  r1\<lparr>save := (save r1)\<lparr>BigXj := temp_newBigXjs r1,
                                                  ShareID := r5_KeyInt r1,
                                                  Xi := temp_newXi r1,
                                                  Ks := temp_newKs r1\<rparr>\<rparr>
                else if IsOldCommittee r1 then r1\<lparr>input_Xi := 0\<rparr>
                else r1)
         in (None, r2\<lparr>end_ch := end_ch r2 @ [save r2]\<rparr>)))"

definition r5_CanAccept :: "ParsedMessage \<Rightarrow> bool" where
  "r5_CanAccept msg = False"

definition r5_Update :: "round5 \<Rightarrow> bool \<times> round5" where
  "r5_Update rnd = (False, rnd)"

section \<open>What round 2 waits for\<close>

text \<open>
  The words of the specification about \<open>Update\<close>, as predicates on the stored messages:
  peer \<open>i\<close>'s row is complete when every entry other than the one at \<open>i\<close> is present
  and acceptable; peer \<open>i\<close> is complete when its row and its second message are;
  all messages have arrived when every peer other than the party itself is complete.
  \<open>ok_sound\<close> says that an \<open>ok\<close> flag is set only for a complete peer, \<open>well_sized\<close>
  that the three slices have one length, and \<open>ok_only rnd rnd'\<close> that \<open>rnd'\<close> differs
  from \<open>rnd\<close> in its \<open>ok\<close> flags at most.
\<close>

definition row_complete :: "nat \<Rightarrow> ParsedMessage option list \<Rightarrow> bool" where
  "row_complete i row =
     (\<forall>j \<in> set [0..<length row]. j \<noteq> i \<longrightarrow> (case row ! j of None \<Rightarrow> False | Some m \<Rightarrow> CanAccept m))"

definition peer_complete :: "ParsedMessage option list list \<Rightarrow> ParsedMessage option list \<Rightarrow> nat \<Rightarrow> bool" where
  "peer_complete m1 m2 i =
     (row_complete i (m1 ! i) \<and> (case m2 ! i of None \<Rightarrow> False | Some m \<Rightarrow> CanAccept m))"

definition all_arrived :: "round2 \<Rightarrow> bool" where
  "all_arrived rnd =
     (\<forall>i \<in> set [0..<length (signRound2Message1s rnd)].
        i \<noteq> PartyIndex rnd \<longrightarrow> peer_complete (signRound2Message1s rnd) (signRound2Message2s rnd) i)"

definition ok_sound :: "round2 \<Rightarrow> bool" where
  "ok_sound rnd =
     (\<forall>i \<in> set [0..<length (signRound2Message1s rnd)].
        i \<noteq> PartyIndex rnd \<longrightarrow> ok rnd ! i \<longrightarrow>
          peer_complete (signRound2Message1s rnd) (signRound2Message2s rnd) i)"

definition well_sized :: "round2 \<Rightarrow> bool" where
  "well_sized rnd =
     (length (ok rnd) = length (signRound2Message1s rnd)
      \<and> length (signRound2Message2s rnd) = length (signRound2Message1s rnd))"

definition ok_only :: "round2 \<Rightarrow> round2 \<Rightarrow> bool" where
  "ok_only rnd rnd' =
     (signRound2Message1s rnd' = signRound2Message1s rnd
      \<and> signRound2Message2s rnd' = signRound2Message2s rnd
      \<and> PartyIndex rnd' = PartyIndex rnd
      \<and> started rnd' = started rnd \<and> number rnd' = number rnd \<and> out rnd' = out rnd)"

definition arrived_from :: "round2 \<Rightarrow> nat \<Rightarrow> bool" where
  "arrived_from rnd i =
     (\<forall>k \<in> set [i..<length (signRound2Message1s rnd)].
        k \<noteq> PartyIndex rnd \<longrightarrow> peer_complete (signRound2Message1s rnd) (signRound2Message2s rnd) k)"

section \<open>Example rounds and messages\<close>

definition p2p_message1 :: ParsedMessage where
  "p2p_message1 = \<lparr> Content = SignRound2Message1, From = 1, To = Some [0], IsBroadcast = False \<rparr>"

definition bcast :: "MessageContent \<Rightarrow> nat \<Rightarrow> ParsedMessage" where
  "bcast c i = \<lparr> Content = c, From = i, To = None, IsBroadcast = True \<rparr>"

definition directed :: "nat \<Rightarrow> nat \<Rightarrow> ParsedMessage" where
  "directed j i = \<lparr> Content = SignRound2Message1, From = i, To = Some [j], IsBroadcast = True \<rparr>"

definition round2_example :: "ParsedMessage option \<Rightarrow> round2" where
  "round2_example m =
     \<lparr> started = True, number = 2, PartyIndex = 0, ok = [True, False, False],
       signRound2Message1s =
         [[None, Some (directed 1 0), Some (directed 2 0)],
          [Some (directed 0 1), None, Some (directed 2 1)],
          [Some (directed 0 2), m, None]],
       signRound2Message2s =
         [Some (bcast SignRound2Message2 0), Some (bcast SignRound2Message2 1),
          Some (bcast SignRound2Message2 2)],
       out = [] \<rparr>"

definition round5_example :: "bool \<Rightarrow> round5" where
  "round5_example st =
     \<lparr> r5_started = st, r5_number = 4, r5_PartyIndex = 1, r5_KeyInt = 7,
       r5_oldOK = [False, False], r5_newOK = [False, True],
       IsNewCommittee = True, IsOldCommittee = False,
       temp_newBigXjs = [(1, 2), (3, 4)], temp_newXi = 11, temp_newKs = [5, 7],
       save = \<lparr> BigXj = [], ShareID = 0, Xi = 0, Ks = [] \<rparr>,
       input_Xi = 9, end_ch = [] \<rparr>"

section \<open>Big integers (math/big) and modular arithmetic (common.ModInt)\<close>

text \<open>
  Go's \<^verbatim>\<open>z.Mod(x, m)\<close> is the Euclidean modulus, with a result in \<open>[0, |m|)\<close>; it
  panics when \<open>m = 0\<close>. A panic is the result \<open>None\<close>.
\<close>

definition big_Mod :: "int \<Rightarrow> int \<Rightarrow> int option" where
  "big_Mod x m = (if m = 0 then None else Some (x mod \<bar>m\<bar>))"

text \<open>
  Go's \<^verbatim>\<open>z.ModInverse(g, n)\<close>: the inverse of \<open>g\<close> in \<open>[0, |n|)\<close>, or nil (\<open>None\<close>)
  when \<open>g\<close> and \<open>n\<close> are not relatively prime.
\<close>

definition big_ModInverse :: "int \<Rightarrow> int \<Rightarrow> int option" where
  "big_ModInverse g n =
     map_option int (find (\<lambda>i. (g * int i) mod \<bar>n\<bar> = 1 mod \<bar>n\<bar>) [0..<nat \<bar>n\<bar>])"

text \<open>
  Go's \<^verbatim>\<open>z.Exp(x, y, m)\<close>: \<open>x ** y mod |m|\<close>; with \<open>m = 0\<close> it is \<open>x ** y\<close>, and
  \<open>1\<close> when \<open>y \<le> 0\<close>; with \<open>m \<noteq> 0\<close> and \<open>y < 0\<close> it is the power of the inverse of
  \<open>x\<close>, and nil (\<open>None\<close>) when \<open>x\<close> has no inverse modulo \<open>m\<close>.
\<close>

definition big_Exp :: "int \<Rightarrow> int \<Rightarrow> int \<Rightarrow> int option" where
  "big_Exp x y m =
     (if m = 0 then Some (if y \<le> 0 then 1 else x ^ nat y)
      else if 0 \<le> y then Some ((x ^ nat y) mod \<bar>m\<bar>)
      else map_option (\<lambda>xi. (xi ^ nat (- y)) mod \<bar>m\<bar>) (big_ModInverse x m))"

text \<open>
  Modelled from the spec: \<open>common.ModInt\<close> is not among the sources. The
  specification names its operations \<open>Exp(a,b,m)\<close> and \<open>Mul\<close> mod \<open>m\<close>: \<open>ModInt(m).Exp(x, y)\<close>
  is \<open>x ** y mod m\<close> and \<open>ModInt(m).Mul(x, y)\<close> is \<open>x * y mod m\<close>. An operand that is
  nil makes the call panic, which the option monad carries along.
\<close>

definition ModInt_Exp :: "int \<Rightarrow> int \<Rightarrow> int \<Rightarrow> int option" where
  "ModInt_Exp m x y = big_Exp x y m"

definition ModInt_Mul :: "int \<Rightarrow> int \<Rightarrow> int \<Rightarrow> int option" where
  "ModInt_Mul m x y = big_Mod (x * y) m"

section \<open>Helpers of the proof suite (zkproofs)\<close>

definition PseudoPaillierEncrypt :: "int \<Rightarrow> int \<Rightarrow> int \<Rightarrow> int \<Rightarrow> int \<Rightarrow> int option" where
  "PseudoPaillierEncrypt gamma m rho n n2 =
     do { Gm \<leftarrow> big_Exp gamma m n2;
          Xn \<leftarrow> big_Exp rho n n2;
          ModInt_Mul n2 Gm Xn }"

record RingPedersenParams =
  rp_S :: int
  rp_T :: int
  rp_N :: int

definition Commit :: "RingPedersenParams \<Rightarrow> int \<Rightarrow> int \<Rightarrow> int option" where
  "Commit rp x y =
     do { sx \<leftarrow> ModInt_Exp (rp_N rp) (rp_S rp) x;
          ty \<leftarrow> ModInt_Exp (rp_N rp) (rp_T rp) y;
          ModInt_Mul (rp_N rp) sx ty }"

definition APlusBC :: "int \<Rightarrow> int \<Rightarrow> int \<Rightarrow> int" where
  "APlusBC a b c = (let bc = b * c in a + bc)"

definition ATimesBToTheCModN :: "int \<Rightarrow> int \<Rightarrow> int \<Rightarrow> int \<Rightarrow> int option" where
  "ATimesBToTheCModN a b c n =
     do { bc \<leftarrow> ModInt_Exp n b c;
          ModInt_Mul n a bc }"

section \<open>Paillier public key\<close>

text \<open>
  Modelled from the spec: \<open>paillier.PublicKey\<close> and its method
  \<open>EncryptWithRandomnessNoErrChk\<close> are not among the sources. The specification gives the
  encryption as \<open>Enc(m, rho) = (1+N)^m * rho^N mod N^2\<close>, and \<open>NSquare\<close> is \<open>N^2\<close>.
\<close>

definition NSquare :: "int \<Rightarrow> int" where
  "NSquare n = n * n"

definition EncryptWithRandomnessNoErrChk :: "int \<Rightarrow> int \<Rightarrow> int \<Rightarrow> int option" where
  "EncryptWithRandomnessNoErrChk n m x = PseudoPaillierEncrypt (n + 1) m x n (NSquare n)"

section \<open>The Dec proof (zkproofs: dec\_proof.go)\<close>

text \<open>
  The fields of \<open>DecProof\<close>, \<open>DecStatement\<close> and \<open>DecWitness\<close> carry the prefixes
  \<open>dp_\<close>, \<open>st_\<close> and \<open>wit_\<close>. A \<open>*DecProof\<close> that is nil is \<open>None\<close>.
\<close>

record DecProof =
  dp_S :: int
  dp_T :: int
  dp_A :: int
  dp_Gamma :: int
  dp_Z1 :: int
  dp_Z2 :: int
  dp_W :: int

record DecStatement =
  st_Q :: int
  st_Ell :: int
  st_N0 :: int
  st_C :: int
  st_X :: int


text \<open>
  \<open>GetChallenge\<close> hashes the statement, the Ring-Pedersen parameters and the first four
  components of the proof. \<open>common.SHA512_256i\<close> is not among the sources: the hash is
  the parameter \<open>H\<close>, whose results are natural numbers as the integers read from the
  bytes of a digest are.
\<close>

definition GetChallenge ::
  "(int list \<Rightarrow> nat) \<Rightarrow> int \<Rightarrow> int \<Rightarrow> int \<Rightarrow> int \<Rightarrow> DecStatement \<Rightarrow> RingPedersenParams \<Rightarrow> int" where
  "GetChallenge H pS pT pA pGamma stmt rp =
     (let msg = [st_Ell stmt, st_Q stmt, st_N0 stmt, st_C stmt, st_X stmt,
                 rp_N rp, rp_S rp, rp_T rp, pS, pT, pA, pGamma]
      in int (H msg))"


text \<open>
  \<open>Verify\<close>. The result is \<open>None\<close> where the Go code panics, otherwise the returned
  boolean.
\<close>

definition Verify ::
  "(int list \<Rightarrow> nat) \<Rightarrow> DecProof option \<Rightarrow> DecStatement \<Rightarrow> RingPedersenParams \<Rightarrow> bool option" where
  "Verify H proof stmt rp =
     (case proof of
        None \<Rightarrow> Some False
      | Some p \<Rightarrow>
          if \<not> 0 < st_N0 stmt then Some False
          else
            (let e = GetChallenge H (dp_S p) (dp_T p) (dp_A p) (dp_Gamma p) stmt rp in
             if IsZero (dp_W p) \<or> IsZero (dp_A p) then Some False
             else
               do { left1 \<leftarrow> EncryptWithRandomnessNoErrChk (st_N0 stmt) (dp_Z1 p) (dp_W p);
                    right1 \<leftarrow> ATimesBToTheCModN (dp_A p) (st_C stmt) e (NSquare (st_N0 stmt));
                    if left1 \<noteq> right1 then Some False
                    else
                      do { left2 \<leftarrow> big_Mod (dp_Z1 p) (st_Q stmt);
                           right2 \<leftarrow> big_Mod (APlusBC (dp_Gamma p) e (st_X stmt)) (st_Q stmt);
                           if left2 \<noteq> right2 then Some False
                           else
                             do { left3 \<leftarrow> Commit rp (dp_Z1 p) (dp_Z2 p);
                                  right3 \<leftarrow> ATimesBToTheCModN (dp_T p) (dp_S p) e (rp_N rp);
                                  if left3 \<noteq> right3 then Some False else Some True } } }))"

text \<open>
  A small instance: Paillier modulus 15, group order 7, Ring-Pedersen parameters
  \<open>(77, 4, 16)\<close>, the ciphertext \<open>1\<close> of the plaintext \<open>0\<close>, and a proof whose
  \<open>Gamma\<close> and \<open>Z2\<close> are \<open>0\<close> and whose \<open>Z1 = 525\<close> exceeds \<open>2^(3 ell) = 512\<close>.
\<close>

definition dec_stmt_example :: DecStatement where
  "dec_stmt_example = \<lparr> st_Q = 7, st_Ell = 3, st_N0 = 15, st_C = 1, st_X = 0 \<rparr>"

definition dec_rp_example :: RingPedersenParams where
  "dec_rp_example = \<lparr> rp_S = 4, rp_T = 16, rp_N = 77 \<rparr>"

definition dec_proof_example :: DecProof where
  "dec_proof_example =
     \<lparr> dp_S = 1, dp_T = 1, dp_A = 1, dp_Gamma = 0, dp_Z1 = 525, dp_Z2 = 0, dp_W = 1 \<rparr>"

definition dec_proof_W0 :: DecProof where
  "dec_proof_W0 = dec_proof_example\<lparr>dp_W := 0\<rparr>"

text \<open>
  The three equations of the Dec verifier and its two zero checks, written with powers
  and remainders: what \<open>Verify\<close> computes when no exponent is negative and no modulus is
  zero. \<open>e\<close> is the challenge.
\<close>

definition dec_accepts :: "int \<Rightarrow> DecProof \<Rightarrow> DecStatement \<Rightarrow> RingPedersenParams \<Rightarrow> bool" where
  "dec_accepts e p stmt rp =
     (0 < st_N0 stmt \<and> dp_W p \<noteq> 0 \<and> dp_A p \<noteq> 0
      \<and> ((st_N0 stmt + 1) ^ nat (dp_Z1 p) * dp_W p ^ nat (st_N0 stmt)) mod (st_N0 stmt * st_N0 stmt)
          = (dp_A p * st_C stmt ^ nat e) mod (st_N0 stmt * st_N0 stmt)
      \<and> dp_Z1 p mod \<bar>st_Q stmt\<bar> = (dp_Gamma p + e * st_X stmt) mod \<bar>st_Q stmt\<bar>
      \<and> (rp_S rp ^ nat (dp_Z1 p) * rp_T rp ^ nat (dp_Z2 p)) mod \<bar>rp_N rp\<bar>
          = (dp_T p * dp_S p ^ nat e) mod \<bar>rp_N rp\<bar>)"



section \<open>Byte encodings of proofs (zkproofs: Proof, ProofArrayToBytes, ProofArrayFromBytes)\<close>

text \<open>
  Go's \<^verbatim>\<open>x.Bytes()\<close> is the big-endian encoding of the absolute value of \<open>x\<close>, empty for
  \<open>0\<close>; \<^verbatim>\<open>z.SetBytes(buf)\<close> reads a big-endian unsigned integer.
\<close>

type_synonym byte = "8 word"

fun bytes_of_nat :: "nat \<Rightarrow> byte list" where
  "bytes_of_nat n = (if n = 0 then [] else bytes_of_nat (n div 256) @ [of_nat (n mod 256)])"

declare bytes_of_nat.simps [simp del]

definition big_Bytes :: "int \<Rightarrow> byte list" where
  "big_Bytes x = bytes_of_nat (nat \<bar>x\<bar>)"

definition big_SetBytes :: "byte list \<Rightarrow> int" where
  "big_SetBytes buf = int (foldl (\<lambda>acc b. acc * 256 + unat b) 0 buf)"

text \<open>
  Modelled from the spec: \<open>common.NonEmptyBytes\<close> and \<open>common.NonEmptyMultiBytes\<close> are not
  among the sources. The specification encodes nil slots as empty byte strings and decodes
  runs of empty slices to absent proofs: a slice is non-empty when its length is positive,
  and a list of slices passes when it is not empty, has the expected length and every
  slice in it is non-empty.
\<close>

definition NonEmptyBytes :: "byte list \<Rightarrow> bool" where
  "NonEmptyBytes bz = (0 < length bz)"

definition NonEmptyMultiBytes :: "byte list list \<Rightarrow> nat \<Rightarrow> bool" where
  "NonEmptyMultiBytes bzs expectLen =
     (if length bzs = 0 then False
      else if expectLen \<noteq> length bzs then False
      else list_all NonEmptyBytes bzs)"

text \<open>
  The \<open>Proof\<close> interface at the proof type \<open>*DecProof\<close>: a nil pointer is \<open>None\<close>.
  \<open>Parts\<close> and \<open>ProofFromBytes\<close> do not read their receiver, so they are defined on a
  nil proof too; \<open>Bytes\<close> reads every component.
\<close>

definition DecProofParts :: nat where
  "DecProofParts = 7"

definition Parts :: "DecProof option \<Rightarrow> nat" where
  "Parts proof = DecProofParts"

definition IsNil :: "DecProof option \<Rightarrow> bool" where
  "IsNil proof = (proof = None)"

definition Bytes :: "DecProof \<Rightarrow> byte list list" where
  "Bytes p =
     [big_Bytes (dp_S p), big_Bytes (dp_T p), big_Bytes (dp_A p), big_Bytes (dp_Gamma p),
      big_Bytes (dp_Z1 p), big_Bytes (dp_Z2 p), big_Bytes (dp_W p)]"

definition ProofFromBytes :: "byte list list \<Rightarrow> string + DecProof" where
  "ProofFromBytes bzs =
     (if \<not> NonEmptyMultiBytes bzs DecProofParts
      then Inl ''expected 7 byte parts to construct DecProof''
      else Inr \<lparr> dp_S = big_SetBytes (bzs ! 0), dp_T = big_SetBytes (bzs ! 1),
                 dp_A = big_SetBytes (bzs ! 2), dp_Gamma = big_SetBytes (bzs ! 3),
                 dp_Z1 = big_SetBytes (bzs ! 4), dp_Z2 = big_SetBytes (bzs ! 5),
                 dp_W = big_SetBytes (bzs ! 6) \<rparr>)"

text \<open>
  \<open>ProofArrayToBytes\<close> fills an output of \<open>parts * len(proofs)\<close> slots from left to
  right: \<open>parts\<close> nil slices for a nil proof, the slices of \<open>Bytes()\<close> otherwise.
\<close>

primrec ProofArrayToBytes_loop :: "nat \<Rightarrow> DecProof option list \<Rightarrow> byte list list" where
  "ProofArrayToBytes_loop parts [] = []"
| "ProofArrayToBytes_loop parts (proof # rest) =
     (if IsNil proof then replicate parts []
      else Bytes (the proof)) @ ProofArrayToBytes_loop parts rest"

definition ProofArrayToBytes :: "DecProof option list \<Rightarrow> byte list list" where
  "ProofArrayToBytes proofs =
     (if length proofs = 0 then []
      else ProofArrayToBytes_loop (Parts (proofs ! 0)) proofs)"

text \<open>
  \<open>ProofArrayFromBytes\<close> decodes the slice \<open>bzs[p*parts : (p+1)*parts]\<close> for every index
  \<open>p\<close>; an entry whose slice does not pass \<open>NonEmptyMultiBytes\<close> is left nil, and the
  first decoding error is returned.
\<close>

primrec ProofArrayFromBytes_loop ::
  "nat \<Rightarrow> byte list list \<Rightarrow> nat list \<Rightarrow> string + DecProof option list" where
  "ProofArrayFromBytes_loop parts bzs [] = Inr []"
| "ProofArrayFromBytes_loop parts bzs (p # ps) =
     (let start = p * parts;
          end = (p + 1) * parts;
          slice = take (end - start) (drop start bzs)
      in if NonEmptyMultiBytes slice (length slice) then
           (case ProofFromBytes slice of
              Inl err \<Rightarrow> Inl err
            | Inr proof \<Rightarrow>
                (case ProofArrayFromBytes_loop parts bzs ps of
                   Inl err \<Rightarrow> Inl err
                 | Inr proofs \<Rightarrow> Inr (Some proof # proofs)))
         else
           (case ProofArrayFromBytes_loop parts bzs ps of
              Inl err \<Rightarrow> Inl err
            | Inr proofs \<Rightarrow> Inr (None # proofs)))"

definition ProofArrayFromBytes :: "byte list list \<Rightarrow> string + DecProof option list" where
  "ProofArrayFromBytes bzs =
     (let parts = Parts None in
      if length bzs mod parts \<noteq> 0 then Inl ''Improper input length''
      else ProofArrayFromBytes_loop parts bzs [0..<length bzs div parts])"

text \<open>
  Proofs that the encoding can carry: every component is positive. An entry of an array is
  encodable when it is nil or such a proof.
\<close>

definition positive_proof :: "DecProof \<Rightarrow> bool" where
  "positive_proof p =
     (0 < dp_S p \<and> 0 < dp_T p \<and> 0 < dp_A p \<and> 0 < dp_Gamma p
      \<and> 0 < dp_Z1 p \<and> 0 < dp_Z2 p \<and> 0 < dp_W p)"

definition dec_proof_positive :: DecProof where
  "dec_proof_positive =
     \<lparr> dp_S = 1, dp_T = 34, dp_A = 1, dp_Gamma = 3, dp_Z1 = 525, dp_Z2 = 2, dp_W = 1 \<rparr>"

definition encodable :: "DecProof option \<Rightarrow> bool" where
  "encodable proof = (case proof of None \<Rightarrow> True | Some p \<Rightarrow> positive_proof p)"

section \<open>Paillier private key and decryption\<close>

text \<open>
  Modelled from the spec: the package \<open>paillier\<close> (\<open>PrivateKey\<close>, \<open>Decrypt\<close>,
  \<open>DecryptFull\<close>, \<open>HomoAdd\<close>, \<open>HomoMult\<close>, \<open>L\<close>) is not among the sources; only its tests
  are. The specification gives the key as \<open>(N, p, q, lambda, mu)\<close>, decryption via
  \<open>lambda = lcm(p-1, q-1)\<close>, the constraint \<open>0 \<le> c < N^2\<close> on a ciphertext, and the
  failure \<open>InvalidCiphertext\<close> when \<open>c \<ge> N^2\<close> or \<open>c\<close> lies in a non-coprime coset; a
  ciphertext outside the constraint from below fails in the same way. The test of \<open>L\<close>
  fixes \<open>L(21, 3) = 6\<close>, the quotient of \<open>u - 1\<close> by \<open>n\<close>. \<open>DecryptFull\<close> returns the
  plaintext together with a recovered randomizer and fails with \<open>InvalidCiphertext\<close>
  when the randomizer does not encrypt the plaintext to \<open>c\<close>; the specification does not
  say how the randomizer is recovered, so that step is the parameter \<open>recover\<close>.
\<close>

datatype paillier_error = InvalidCiphertext

record PrivateKey =
  sk_N :: int
  sk_P :: int
  sk_Q :: int
  sk_LambdaN :: int
  sk_Mu :: int

definition L :: "int \<Rightarrow> int \<Rightarrow> int" where
  "L u n = (u - 1) div n"

definition Decrypt :: "PrivateKey \<Rightarrow> int \<Rightarrow> paillier_error + int" where
  "Decrypt sk c =
     (let N2 = NSquare (sk_N sk) in
      if c < 0 \<or> N2 \<le> c then Inl InvalidCiphertext
      else if gcd c N2 \<noteq> 1 then Inl InvalidCiphertext
      else Inr ((L ((c ^ nat (sk_LambdaN sk)) mod N2) (sk_N sk) * sk_Mu sk) mod sk_N sk))"

definition DecryptFull ::
  "(PrivateKey \<Rightarrow> int \<Rightarrow> int \<Rightarrow> int) \<Rightarrow> PrivateKey \<Rightarrow> int \<Rightarrow> paillier_error + int \<times> int" where
  "DecryptFull recover sk c =
     (case Decrypt sk c of
        Inl err \<Rightarrow> Inl err
      | Inr m \<Rightarrow>
          (let rho = recover sk c m in
           if EncryptWithRandomnessNoErrChk (sk_N sk) m rho = Some c then Inr (m, rho)
           else Inl InvalidCiphertext))"

definition HomoAdd :: "int \<Rightarrow> int \<Rightarrow> int \<Rightarrow> int option" where
  "HomoAdd n c1 c2 = ModInt_Mul (NSquare n) c1 c2"

definition HomoMult :: "int \<Rightarrow> int \<Rightarrow> int \<Rightarrow> int option" where
  "HomoMult n k c = ModInt_Exp (NSquare n) c k"

definition paillier_key_example :: PrivateKey where
  "paillier_key_example = \<lparr> sk_N = 15, sk_P = 3, sk_Q = 5, sk_LambdaN = 4, sk_Mu = 4 \<rparr>"

section \<open>Range parameters\<close>

lemma NewEll_fields:
  "Ell (NewEll l) = l"
  "TwoPowEll (NewEll l) = big_exp_nomod 2 l"
  "Epsilon (NewEll l) = l * 2"
  "EllPlusEpsilon (NewEll l) = l + l * 2"
  "TwoPowEllPlusEpsilon (NewEll l) = big_exp_nomod 2 (l + l * 2)"
  by (simp_all add: NewEll_def Let_def)

lemma InRange_strict:
  "InRange e v \<longleftrightarrow> - TwoPowEllPlusEpsilon e < v \<and> v < TwoPowEllPlusEpsilon e"
  by (simp add: InRange_def Let_def)

lemma big_exp_nomod_two: "big_exp_nomod 2 y = 2 ^ nat y"
  by (simp add: big_exp_nomod_def)

lemma InRangeEll_strict:
  "InRangeEll e v \<longleftrightarrow> - TwoPowEll e < v \<and> v < TwoPowEll e"
  by (simp add: InRangeEll_def Let_def)

text \<open>
  C10. For every \<open>Ell\<close> object \<open>e\<close> and every integer \<open>v\<close>, \<open>InRange e v\<close> is true
  exactly when \<open>v\<close> lies strictly between \<open>-2^(ell+epsilon)\<close> and \<open>2^(ell+epsilon)\<close>
  (the stored field \<open>TwoPowEllPlusEpsilon\<close>), so both endpoints are rejected; and
  \<open>InRangeEll\<close> is the same with the stored \<open>2^ell\<close>, rejecting \<open>\<plusminus>2^ell\<close>.
  For the object built by \<open>NewEll l\<close> the bound is \<open>2^(3l)\<close>.
\<close>

theorem InRange_open_interval:
  "(InRange e v \<longleftrightarrow> - TwoPowEllPlusEpsilon e < v \<and> v < TwoPowEllPlusEpsilon e)
   \<and> \<not> InRange e (TwoPowEllPlusEpsilon e)
   \<and> \<not> InRange e (- TwoPowEllPlusEpsilon e)
   \<and> (InRangeEll e v \<longleftrightarrow> - TwoPowEll e < v \<and> v < TwoPowEll e)
   \<and> \<not> InRangeEll e (TwoPowEll e)
   \<and> \<not> InRangeEll e (- TwoPowEll e)
   \<and> (InRange (NewEll l) v \<longleftrightarrow> - (2 ^ nat (3 * l)) < v \<and> v < 2 ^ nat (3 * l))
   \<and> (InRangeEll (NewEll l) v \<longleftrightarrow> - (2 ^ nat l) < v \<and> v < 2 ^ nat l)"
proof -
  have "l + l * 2 = 3 * l" by simp
  then show ?thesis
    by (simp add: InRange_strict InRangeEll_strict NewEll_fields big_exp_nomod_two)
qed

theorem InRange_open_interval_witness:
  "InRange (NewEll 1) 7 \<and> \<not> InRange (NewEll 1) 8 \<and> \<not> InRange (NewEll 1) (- 8)
   \<and> InRangeEll (NewEll 1) 1 \<and> \<not> InRangeEll (NewEll 1) 2 \<and> \<not> InRangeEll (NewEll 1) (- 2)"
  using InRange_open_interval [of "NewEll 1" 7 1]
        InRange_open_interval [of "NewEll 1" 8 1]
        InRange_open_interval [of "NewEll 1" "- 8" 1]
        InRange_open_interval [of "NewEll 1" 1 1]
        InRange_open_interval [of "NewEll 1" 2 1]
        InRange_open_interval [of "NewEll 1" "- 2" 1]
  by (simp add: NewEll_fields big_exp_nomod_def)

text \<open>
  C9 (as stated). The claim takes \<open>ell\<close> to be \<open>\<lfloor>log\<^sub>2 q\<rfloor>\<close> for the curve order \<open>q\<close>.
  \<open>GetEll\<close> returns the curve's \<open>BitSize\<close> instead: on secp256k1 the order lies
  between \<open>2^255\<close> and \<open>2^256\<close>, so \<open>\<lfloor>log\<^sub>2 q\<rfloor> = 255\<close> while \<open>GetEll\<close> gives 256.
\<close>

theorem GetEll_not_floor_log2_counterexample:
  "\<lfloor>log 2 (real_of_int (Q secp256k1))\<rfloor> = 255 \<and> GetEll secp256k1 = 256
   \<and> GetEll secp256k1 \<noteq> \<lfloor>log 2 (real_of_int (Q secp256k1))\<rfloor>"
proof -
  let ?k = "nat (Q secp256k1)"
  have lo: "(2::nat) ^ 255 \<le> ?k" by (simp add: Q_def secp256k1_def)
  have hi: "?k < (2::nat) ^ (255 + 1)" by (simp add: Q_def secp256k1_def)
  have "\<lfloor>log (real (2::nat)) (real ?k)\<rfloor> = int 255"
    by (rule floor_log_nat_eq_if [OF lo hi]) simp
  moreover have "real ?k = real_of_int (Q secp256k1)" by (simp add: Q_def secp256k1_def)
  ultimately have fl: "\<lfloor>log 2 (real_of_int (Q secp256k1))\<rfloor> = 255" by simp
  have ge: "GetEll secp256k1 = 256" by (simp add: GetEll_def secp256k1_def)
  show ?thesis using fl ge by simp
qed

text \<open>
  C9 (amended). \<open>GetEll\<close> returns the curve's \<open>BitSize\<close> (256 on secp256k1), and
  \<open>NewEll ell\<close> sets \<open>epsilon = 2 ell\<close>, \<open>EllPlusEpsilon = 3 ell\<close>,
  \<open>TwoPowEll = 2^ell\<close> and \<open>TwoPowEllPlusEpsilon = 2^(3 ell)\<close> for \<open>ell \<ge> 0\<close>.
\<close>

theorem NewEll_GetEll_parameters:
  "GetEll ec = ec_BitSize ec
   \<and> Ell (NewEll l) = l
   \<and> Epsilon (NewEll l) = 2 * l
   \<and> EllPlusEpsilon (NewEll l) = 3 * l
   \<and> (0 \<le> l \<longrightarrow> TwoPowEll (NewEll l) = 2 ^ nat l
               \<and> TwoPowEllPlusEpsilon (NewEll l) = 2 ^ nat (3 * l))"
proof -
  have "l + l * 2 = 3 * l" by simp
  then show ?thesis
    by (simp add: GetEll_def NewEll_fields big_exp_nomod_two)
qed

theorem NewEll_GetEll_parameters_witness:
  "GetEll secp256k1 = 256
   \<and> Epsilon (NewEll (GetEll secp256k1)) = 512
   \<and> EllPlusEpsilon (NewEll (GetEll secp256k1)) = 768
   \<and> TwoPowEll (NewEll (GetEll secp256k1)) = 2 ^ 256
   \<and> TwoPowEllPlusEpsilon (NewEll (GetEll secp256k1)) = 2 ^ 768"
proof -
  have g: "GetEll secp256k1 = 256" by (simp add: GetEll_def secp256k1_def)
  have n: "nat (3 * 256) = 768" "nat 256 = 256" by simp_all
  show ?thesis
    using NewEll_GetEll_parameters [of secp256k1 256] g n by simp
qed

section \<open>Round 2: acceptance of messages\<close>

text \<open>
  C5 (as stated). The claim has \<open>CanAccept\<close> accept a \<open>SignRound2Message1\<close> delivered
  as a non-broadcast message addressed to the receiving party. \<open>CanAccept\<close> returns
  \<open>msg.IsBroadcast()\<close> for this content, so such a message is rejected.
\<close>

theorem CanAccept_p2p_Message1_counterexample:
  "Content p2p_message1 = SignRound2Message1 \<and> IsBroadcast p2p_message1 = False
   \<and> To p2p_message1 = Some [0] \<and> CanAccept p2p_message1 = False"
  by (simp add: p2p_message1_def CanAccept_def)

text \<open>
  C5 (amended). \<open>CanAccept\<close> of round 2 accepts a message exactly when its content is
  \<open>SignRound2Message1\<close> or \<open>SignRound2Message2\<close> and its broadcast flag is set,
  whoever its recipients are.
\<close>

theorem CanAccept_iff_broadcast:
  "CanAccept msg \<longleftrightarrow>
     (Content msg = SignRound2Message1 \<or> Content msg = SignRound2Message2) \<and> IsBroadcast msg"
  by (simp add: CanAccept_def)

theorem CanAccept_iff_broadcast_witness:
  "CanAccept (directed 0 1) \<and> CanAccept (bcast SignRound2Message2 1)
   \<and> \<not> CanAccept (bcast SignRound1Message 1)"
  using CanAccept_iff_broadcast [of "directed 0 1"]
        CanAccept_iff_broadcast [of "bcast SignRound2Message2 1"]
        CanAccept_iff_broadcast [of "bcast SignRound1Message 1"]
  by (simp add: directed_def bcast_def)

section \<open>Starting a round twice\<close>

lemma Start_send_frame:
  "started (Start_send mk1 rnd js) = started rnd
   \<and> number (Start_send mk1 rnd js) = number rnd
   \<and> PartyIndex (Start_send mk1 rnd js) = PartyIndex rnd
   \<and> ok (Start_send mk1 rnd js) = ok rnd
   \<and> signRound2Message2s (Start_send mk1 rnd js) = signRound2Message2s rnd
   \<and> length (signRound2Message1s (Start_send mk1 rnd js)) = length (signRound2Message1s rnd)"
  by (induction js arbitrary: rnd) (simp_all add: Let_def)

lemma Start_started: "started (snd (Start work mk1 mk2 n rnd))"
  by (simp add: Start_def Let_def resetOK_def Start_send_frame split: option.splits)

lemma Start_guard:
  "started rnd \<Longrightarrow> Start work mk1 mk2 n rnd = (Some (WrapError rnd ''round already started'' []), rnd)"
  by (simp add: Start_def)

lemma r5_Start_started: "r5_started (snd (r5_Start rnd))"
  by (simp add: r5_Start_def Let_def allOldOK_def allNewOK_def)

lemma r5_Start_guard:
  "r5_started rnd \<Longrightarrow> r5_Start rnd = (Some (r5_WrapError rnd ''round already started'' []), rnd)"
  by (simp add: r5_Start_def)

text \<open>
  C7. When the \<open>started\<close> flag of a round is set, \<open>Start\<close> returns the error
  "round already started" and leaves the round as it is; this holds for round 2 of
  signing and for round 5 of resharing. Every call of \<open>Start\<close> leaves the flag set,
  so a second call, whatever its arguments, returns that error and changes nothing.
\<close>

theorem Start_twice_RoundAlreadyStarted:
  "(started rnd \<longrightarrow>
      Start work mk1 mk2 n rnd = (Some (WrapError rnd ''round already started'' []), rnd))
   \<and> (r5_started rnd5 \<longrightarrow>
      r5_Start rnd5 = (Some (r5_WrapError rnd5 ''round already started'' []), rnd5))
   \<and> (let rnd' = snd (Start work mk1 mk2 n rnd)
      in Start work' mk1' mk2' n' rnd' = (Some (WrapError rnd' ''round already started'' []), rnd'))
   \<and> (let rnd5' = snd (r5_Start rnd5)
      in r5_Start rnd5' = (Some (r5_WrapError rnd5' ''round already started'' []), rnd5'))"
  by (simp add: Start_guard r5_Start_guard Start_started r5_Start_started Let_def)

theorem Start_twice_RoundAlreadyStarted_witness:
  "Start None directed (bcast SignRound2Message2) 3 (round2_example None)
     = (Some \<lparr> cause = ''round already started'', round_number = 2, victim = 0, culprits = [] \<rparr>,
        round2_example None)
   \<and> r5_Start (round5_example True)
     = (Some \<lparr> cause = ''round already started'', round_number = 4, victim = 1, culprits = [] \<rparr>,
        round5_example True)
   \<and> fst (r5_Start (round5_example False)) = None
   \<and> fst (r5_Start (snd (r5_Start (round5_example False))))
     = Some \<lparr> cause = ''round already started'', round_number = 5, victim = 1, culprits = [] \<rparr>
   \<and> snd (r5_Start (snd (r5_Start (round5_example False)))) = snd (r5_Start (round5_example False))"
proof -
  have s2: "started (round2_example None)" by (simp add: round2_example_def)
  have s5: "r5_started (round5_example True)" by (simp add: round5_example_def)
  have n5: "fst (r5_Start (round5_example False)) = None"
    by (simp add: r5_Start_def round5_example_def Let_def)
  have w5: "r5_number (snd (r5_Start (round5_example False))) = 5
            \<and> r5_PartyIndex (snd (r5_Start (round5_example False))) = 1"
    by (simp add: r5_Start_def round5_example_def Let_def allOldOK_def allNewOK_def)
  show ?thesis
    using Start_twice_RoundAlreadyStarted
            [of "round2_example None" None directed "bcast SignRound2Message2" 3
                "round5_example True" None directed "bcast SignRound2Message2" 3]
          Start_twice_RoundAlreadyStarted
            [of "round2_example None" None directed "bcast SignRound2Message2" 3
                "round5_example False" None directed "bcast SignRound2Message2" 3]
          s2 s5 n5 w5
    by (simp add: Let_def WrapError_def r5_WrapError_def round2_example_def round5_example_def)
qed

section \<open>Round 2: waiting for the messages of the peers\<close>

lemma all_less_Suc_shift: "(\<forall>k < Suc n. P k) \<longleftrightarrow> P 0 \<and> (\<forall>k < n. P (Suc k))"
  by (auto simp: less_Suc_eq_0_disj)

lemma Update_row_iff:
  "Update_row i j row \<longleftrightarrow>
     (\<forall>k < length row. j + k \<noteq> i \<longrightarrow> (case row ! k of None \<Rightarrow> False | Some m \<Rightarrow> CanAccept m))"
proof (induction row arbitrary: j)
  case Nil
  then show ?case by simp
next
  case (Cons msg rest)
  have "(\<forall>k < length (msg # rest). j + k \<noteq> i \<longrightarrow>
            (case (msg # rest) ! k of None \<Rightarrow> False | Some m \<Rightarrow> CanAccept m))
        \<longleftrightarrow> (j \<noteq> i \<longrightarrow> (case msg of None \<Rightarrow> False | Some m \<Rightarrow> CanAccept m))
            \<and> (\<forall>k < length rest. Suc j + k \<noteq> i \<longrightarrow>
                  (case rest ! k of None \<Rightarrow> False | Some m \<Rightarrow> CanAccept m))"
    by (simp add: all_less_Suc_shift)
  note unfold = this
  note IH = Cons.IH [of "Suc j"]
  show ?case
  proof (cases "i = j")
    case True
    then have "Update_row i j (msg # rest) = Update_row i (Suc j) rest" by simp
    then show ?thesis unfolding unfold IH using True by simp
  next
    case False
    then have "Update_row i j (msg # rest)
                 = ((case msg of None \<Rightarrow> False | Some m \<Rightarrow> CanAccept m) \<and> Update_row i (Suc j) rest)"
      by (cases msg) simp_all
    then show ?thesis unfolding unfold IH using False by simp
  qed
qed

lemma Update_row_complete: "Update_row i 0 row \<longleftrightarrow> row_complete i row"
  by (auto simp: Update_row_iff row_complete_def)

lemma arrived_from_step:
  "i < length (signRound2Message1s rnd) \<Longrightarrow>
   arrived_from rnd i \<longleftrightarrow>
     (i \<noteq> PartyIndex rnd \<longrightarrow> peer_complete (signRound2Message1s rnd) (signRound2Message2s rnd) i)
     \<and> arrived_from rnd (Suc i)"
proof -
  assume lt: "i < length (signRound2Message1s rnd)"
  then have "set [i..<length (signRound2Message1s rnd)]
               = insert i (set [Suc i..<length (signRound2Message1s rnd)])" by auto
  then show ?thesis by (simp add: arrived_from_def)
qed

lemma arrived_from_ok_only: "ok_only rnd rnd' \<Longrightarrow> arrived_from rnd' i = arrived_from rnd i"
  by (simp add: arrived_from_def ok_only_def)

lemma ok_only_trans: "ok_only a b \<Longrightarrow> ok_only b c \<Longrightarrow> ok_only a c"
  by (simp add: ok_only_def)

lemma ok_only_set: "ok_only rnd (rnd\<lparr>ok := v\<rparr>)"
  by (simp add: ok_only_def)

lemma ok_only_refl: "ok_only rnd rnd"
  by (simp add: ok_only_def)

lemma Update_loop_correct:
  assumes "well_sized rnd" and "ok_sound rnd"
    and "rest = drop i (signRound2Message1s rnd)"
    and "i \<le> length (signRound2Message1s rnd)"
  shows "\<exists>rnd'. Update_loop rnd i rest = Some (arrived_from rnd i, rnd')
          \<and> ok_only rnd rnd' \<and> well_sized rnd' \<and> ok_sound rnd'"
  using assms
proof (induction rest arbitrary: rnd i)
  case Nil
  then have "i = length (signRound2Message1s rnd)" by simp
  then show ?case using Nil by (simp add: arrived_from_def ok_only_refl)
next
  case (Cons msgArray rest)
  let ?n = "length (signRound2Message1s rnd)"
  let ?pc = "peer_complete (signRound2Message1s rnd) (signRound2Message2s rnd)"
  from Cons.prems have lt: "i < ?n" by (cases "i < ?n") auto
  then have le: "Suc i \<le> ?n" by simp
  from lt Cons.prems(3) have row: "msgArray = signRound2Message1s rnd ! i"
    and rest: "rest = drop (Suc i) (signRound2Message1s rnd)"
    by (simp_all add: Cons_nth_drop_Suc [symmetric])
  note step = arrived_from_step [OF lt]
  from Cons.prems lt have lok: "i < length (ok rnd)" and l2: "i < length (signRound2Message2s rnd)"
    by (simp_all add: well_sized_def)
  from Cons.IH [OF Cons.prems(1,2) rest le] obtain rnd1 where r1:
    "Update_loop rnd (Suc i) rest = Some (arrived_from rnd (Suc i), rnd1)"
    "ok_only rnd rnd1" "well_sized rnd1" "ok_sound rnd1" by blast
  show ?case
  proof (cases "i = PartyIndex rnd")
    case True
    then show ?thesis using r1 step by simp
  next
    case notself: False
    show ?thesis
    proof (cases "ok rnd ! i")
      case True
      then have pci: "?pc i" using Cons.prems(2) lt notself by (simp add: ok_sound_def)
      then show ?thesis using True notself lok r1 step by simp
    next
      case notok: False
      show ?thesis
      proof (cases "?pc i")
        case False
        then have "Update_loop rnd i (msgArray # rest) = Some (False, rnd)"
          using notself notok lok l2 row
          by (auto simp: peer_complete_def Update_row_complete split: option.splits)
        then show ?thesis using False notself Cons.prems(1,2) step by (simp add: ok_only_refl)
      next
        case True
        let ?r = "rnd\<lparr>ok := (ok rnd)[i := True]\<rparr>"
        have ws: "well_sized ?r" using Cons.prems(1) by (simp add: well_sized_def)
        have os: "ok_sound ?r"
          unfolding ok_sound_def
        proof (intro ballI impI)
          fix k
          assume k: "k \<in> set [0..<length (signRound2Message1s ?r)]" "k \<noteq> PartyIndex ?r"
             and okk: "ok ?r ! k"
          show "peer_complete (signRound2Message1s ?r) (signRound2Message2s ?r) k"
          proof (cases "k = i")
            case True
            then show ?thesis using \<open>?pc i\<close> by simp
          next
            case False
            then have "ok rnd ! k" using okk by simp
            then show ?thesis using Cons.prems(2) k by (simp add: ok_sound_def)
          qed
        qed
        have rest': "rest = drop (Suc i) (signRound2Message1s ?r)" using rest by simp
        have le': "Suc i \<le> length (signRound2Message1s ?r)" using lt by simp
        from Cons.IH [OF ws os rest' le'] obtain rnd2 where r2:
          "Update_loop ?r (Suc i) rest = Some (arrived_from ?r (Suc i), rnd2)"
          "ok_only ?r rnd2" "well_sized rnd2" "ok_sound rnd2" by blast
        have eq: "Update_loop rnd i (msgArray # rest) = Update_loop ?r (Suc i) rest"
          using True notself notok lok l2 row
          by (auto simp: peer_complete_def Update_row_complete split: option.splits)
        have af: "arrived_from ?r (Suc i) = arrived_from rnd (Suc i)"
          by (rule arrived_from_ok_only [OF ok_only_set])
        have oo: "ok_only rnd rnd2" by (rule ok_only_trans [OF ok_only_set r2(2)])
        show ?thesis using eq r2 af oo True step by simp
      qed
    qed
  qed
qed

lemma Start_ok_sound:
  assumes "\<not> started rnd" and "well_sized rnd"
  shows "ok_sound (snd (Start work mk1 mk2 n rnd)) \<and> well_sized (snd (Start work mk1 mk2 n rnd))"
proof -
  let ?r = "snd (Start work mk1 mk2 n rnd)"
  have okr: "ok ?r = (map (\<lambda>_. False) (ok rnd))[PartyIndex rnd := True]"
    and pi: "PartyIndex ?r = PartyIndex rnd"
    and l1: "length (signRound2Message1s ?r) = length (signRound2Message1s rnd)"
    and l2: "length (signRound2Message2s ?r) = length (signRound2Message2s rnd)"
    using assms(1)
    by (cases work; simp add: Start_def Let_def resetOK_def Start_send_frame)+
  have "\<not> ok ?r ! i" if "i < length (signRound2Message1s ?r)" "i \<noteq> PartyIndex ?r" for i
    using that assms(2) by (simp add: okr pi l1 well_sized_def)
  then have "ok_sound ?r" by (simp add: ok_sound_def)
  moreover have "well_sized ?r" using assms(2) by (simp add: well_sized_def okr l1 l2)
  ultimately show ?thesis by simp
qed

text \<open>
  C6. In a round whose slices have one length and whose \<open>ok\<close> flags are set only for
  complete peers (as they are after \<open>Start\<close>, which clears them, and after every
  \<open>Update\<close>), \<open>Update\<close> returns, without a panic and with a nil error, and the flag
  it returns is true exactly when, for every peer other than the party itself, every
  \<open>SignRound2Message1\<close> of that peer to another party and its \<open>SignRound2Message2\<close>
  are stored and pass \<open>CanAccept\<close>; otherwise it is false. The call changes the
  \<open>ok\<close> flags only and keeps them sound.
\<close>

theorem Update_true_iff_all_arrived:
  assumes "well_sized rnd" and "ok_sound rnd"
  shows "\<exists>rnd'. Update rnd = Some (all_arrived rnd, rnd')
           \<and> ok_only rnd rnd' \<and> well_sized rnd' \<and> ok_sound rnd'"
proof -
  have "all_arrived rnd = arrived_from rnd 0" by (simp add: all_arrived_def arrived_from_def)
  then show ?thesis
    using Update_loop_correct [OF assms, of "signRound2Message1s rnd" 0]
    by (simp add: Update_def)
qed

theorem Update_true_iff_all_arrived_witness:
  "well_sized (round2_example (Some (directed 1 2)))
   \<and> ok_sound (round2_example (Some (directed 1 2)))
   \<and> all_arrived (round2_example (Some (directed 1 2)))
   \<and> (\<exists>rnd'. Update (round2_example (Some (directed 1 2))) = Some (True, rnd'))
   \<and> well_sized (round2_example None)
   \<and> ok_sound (round2_example None)
   \<and> \<not> all_arrived (round2_example None)
   \<and> (\<exists>rnd'. Update (round2_example None) = Some (False, rnd'))"
proof -
  have w: "well_sized (round2_example m)" for m
    by (simp add: well_sized_def round2_example_def)
  have o1: "ok_sound (round2_example (Some (directed 1 2)))" by code_simp
  have o2: "ok_sound (round2_example None)" by code_simp
  have a1: "all_arrived (round2_example (Some (directed 1 2)))" by code_simp
  have a2: "\<not> all_arrived (round2_example None)" by code_simp
  from Update_true_iff_all_arrived [OF w o1] a1
  have u1: "\<exists>rnd'. Update (round2_example (Some (directed 1 2))) = Some (True, rnd')" by auto
  from Update_true_iff_all_arrived [OF w o2] a2
  have u2: "\<exists>rnd'. Update (round2_example None) = Some (False, rnd')" by auto
  show ?thesis using w o1 o2 a1 a2 u1 u2 by simp
qed

section \<open>The Dec proof: what the verifier checks\<close>

lemma big_Exp_nonneg:
  "m \<noteq> 0 \<Longrightarrow> 0 \<le> y \<Longrightarrow> big_Exp x y m = Some ((x ^ nat y) mod \<bar>m\<bar>)"
  by (simp add: big_Exp_def)

lemma big_Mod_nonzero: "m \<noteq> 0 \<Longrightarrow> big_Mod x m = Some (x mod \<bar>m\<bar>)"
  by (simp add: big_Mod_def)

lemma Commit_nonneg:
  assumes "rp_N rp \<noteq> 0" "0 \<le> x" "0 \<le> y"
  shows "Commit rp x y = Some ((rp_S rp ^ nat x * rp_T rp ^ nat y) mod \<bar>rp_N rp\<bar>)"
  using assms
  by (simp add: Commit_def ModInt_Exp_def ModInt_Mul_def big_Exp_nonneg big_Mod_nonzero mod_mult_eq)

lemma ATimesBToTheCModN_nonneg:
  assumes "n \<noteq> 0" "0 \<le> c"
  shows "ATimesBToTheCModN a b c n = Some ((a * b ^ nat c) mod \<bar>n\<bar>)"
  using assms
  by (simp add: ATimesBToTheCModN_def ModInt_Exp_def ModInt_Mul_def big_Exp_nonneg
      big_Mod_nonzero mod_mult_right_eq)

lemma Encrypt_nonneg:
  assumes "0 < n" "0 \<le> m"
  shows "EncryptWithRandomnessNoErrChk n m x
           = Some (((n + 1) ^ nat m * x ^ nat n) mod (n * n))"
proof -
  have nz: "NSquare n \<noteq> 0" and ab: "\<bar>NSquare n\<bar> = n * n" using assms(1) by (simp_all add: NSquare_def)
  show ?thesis
    using assms nz
    by (simp add: EncryptWithRandomnessNoErrChk_def PseudoPaillierEncrypt_def ModInt_Mul_def
        big_Exp_nonneg big_Mod_nonzero ab mod_mult_eq)
qed

lemma GetChallenge_nonneg: "0 \<le> GetChallenge H a b c d stmt rp"
  by (simp add: GetChallenge_def Let_def)

lemma Verify_accepts_iff:
  assumes "st_Q stmt \<noteq> 0" and "rp_N rp \<noteq> 0" and "0 \<le> dp_Z1 p" and "0 \<le> dp_Z2 p"
  shows "Verify H (Some p) stmt rp
           = Some (dec_accepts (GetChallenge H (dp_S p) (dp_T p) (dp_A p) (dp_Gamma p) stmt rp) p stmt rp)"
proof (cases "0 < st_N0 stmt")
  case False
  then show ?thesis by (simp add: Verify_def dec_accepts_def)
next
  case True
  let ?e = "GetChallenge H (dp_S p) (dp_T p) (dp_A p) (dp_Gamma p) stmt rp"
  have e: "0 \<le> ?e" by (rule GetChallenge_nonneg)
  have nz: "NSquare (st_N0 stmt) \<noteq> 0" and ab: "\<bar>NSquare (st_N0 stmt)\<bar> = st_N0 stmt * st_N0 stmt"
    using True by (simp_all add: NSquare_def)
  show ?thesis
    using True assms e
    by (simp add: Verify_def dec_accepts_def Let_def IsZero_def Encrypt_nonneg
        ATimesBToTheCModN_nonneg [OF nz e] ATimesBToTheCModN_nonneg [OF assms(2) e]
        ab big_Mod_nonzero Commit_nonneg APlusBC_def)
qed

lemma power_period:
  fixes x :: int
  assumes "x ^ k mod m = 1"
  shows "x ^ (k * j) mod m = 1"
proof -
  have "x ^ (k * j) mod m = (x ^ k mod m) ^ j mod m"
    by (simp add: power_mult power_mod)
  also have "\<dots> = 1 mod m" using assms by simp
  also have "\<dots> = 1" by (metis assms mod_mod_trivial)
  finally show ?thesis .
qed

lemma dec_example_accepts: "dec_accepts e dec_proof_example dec_stmt_example dec_rp_example"
proof -
  have k: "(525::nat) = 15 * 35" by simp
  have a: "(16::int) ^ 15 mod 225 = 1" by simp
  have b: "(4::int) ^ 15 mod 77 = 1" by simp
  have a': "(16::int) ^ 525 mod 225 = 1" unfolding k by (rule power_period [OF a])
  have b': "(4::int) ^ 525 mod 77 = 1" unfolding k by (rule power_period [OF b])
  have n: "nat 525 = 525" "nat 15 = 15" "nat 0 = 0" by simp_all
  have s: "(15::int) + 1 = 16" "(15::int) * 15 = 225" by simp_all
  have 1: "((15 + 1) ^ nat 525 * 1 ^ nat 15) mod (15 * 15) = (1 * 1 ^ nat e) mod (15 * (15::int))"
    unfolding n s by (simp add: a' del: power_numeral)
  have 2: "(525::int) mod \<bar>7\<bar> = (0 + e * 0) mod \<bar>7\<bar>" by simp
  have 3: "((4::int) ^ nat 525 * 16 ^ nat 0) mod \<bar>77\<bar> = (1 * 1 ^ nat e) mod \<bar>77\<bar>"
    unfolding n by (simp add: b' del: power_numeral)
  show ?thesis
    unfolding dec_accepts_def dec_proof_example_def dec_stmt_example_def dec_rp_example_def
      DecProof.simps DecStatement.simps RingPedersenParams.simps
    using 1 2 3 by (intro conjI) (simp_all del: power_numeral)
qed

text \<open>
  C1 (as stated). The claim has \<open>Verify\<close> reject every proof with a component equal
  to \<open>0\<close> or outside its range. \<open>Verify\<close> tests only \<open>W\<close> and \<open>A\<close> against zero and
  makes no range check: the example proof has \<open>Gamma = 0\<close>, \<open>Z2 = 0\<close> and a \<open>Z1\<close>
  outside \<open>InRange\<close>, and it is accepted whatever the hash function is.
\<close>

theorem Verify_unchecked_components_counterexample:
  "\<forall>H. Verify H (Some dec_proof_example) dec_stmt_example dec_rp_example = Some True
       \<and> dp_Gamma dec_proof_example = 0 \<and> dp_Z2 dec_proof_example = 0
       \<and> \<not> InRange (NewEll (st_Ell dec_stmt_example)) (dp_Z1 dec_proof_example)"
proof
  fix H
  have v: "Verify H (Some dec_proof_example) dec_stmt_example dec_rp_example = Some True"
    by (subst Verify_accepts_iff)
       (simp_all add: dec_example_accepts, simp_all add: dec_proof_example_def dec_stmt_example_def dec_rp_example_def)
  have r: "\<not> InRange (NewEll (st_Ell dec_stmt_example)) (dp_Z1 dec_proof_example)"
    by (simp add: InRange_strict NewEll_fields big_exp_nomod_def dec_proof_example_def dec_stmt_example_def)
  show "Verify H (Some dec_proof_example) dec_stmt_example dec_rp_example = Some True
       \<and> dp_Gamma dec_proof_example = 0 \<and> dp_Z2 dec_proof_example = 0
       \<and> \<not> InRange (NewEll (st_Ell dec_stmt_example)) (dp_Z1 dec_proof_example)"
    using v r by (simp add: dec_proof_example_def)
qed

text \<open>
  C1 (amended). \<open>Verify\<close> returns false for a nil proof, for a statement whose \<open>N0\<close>
  is not positive, and for a proof whose \<open>W\<close> or \<open>A\<close> is \<open>0\<close>; and when \<open>Q\<close> and the
  Ring-Pedersen modulus are not zero and \<open>Z1\<close>, \<open>Z2\<close> are not negative, it returns true
  exactly when \<open>N0 > 0\<close>, \<open>W\<close> and \<open>A\<close> are not zero and the three equations hold
  for the recomputed challenge. No other component is compared with zero or a range.
\<close>

theorem Verify_rejects:
  "Verify H None stmt rp = Some False
   \<and> (st_N0 stmt \<le> 0 \<longrightarrow> Verify H pr stmt rp = Some False)
   \<and> (dp_W p = 0 \<or> dp_A p = 0 \<longrightarrow> Verify H (Some p) stmt rp = Some False)
   \<and> (st_Q stmt \<noteq> 0 \<and> rp_N rp \<noteq> 0 \<and> 0 \<le> dp_Z1 p \<and> 0 \<le> dp_Z2 p \<longrightarrow>
        Verify H (Some p) stmt rp
          = Some (dec_accepts (GetChallenge H (dp_S p) (dp_T p) (dp_A p) (dp_Gamma p) stmt rp) p stmt rp))"
proof -
  have 1: "Verify H None stmt rp = Some False" by (simp add: Verify_def)
  have 2: "Verify H pr stmt rp = Some False" if "st_N0 stmt \<le> 0"
    using that by (cases pr) (simp_all add: Verify_def)
  have 3: "Verify H (Some p) stmt rp = Some False" if "dp_W p = 0 \<or> dp_A p = 0"
    using that by (auto simp: Verify_def IsZero_def Let_def)
  show ?thesis using 1 2 3 Verify_accepts_iff by blast
qed

theorem Verify_rejects_witness:
  "Verify (\<lambda>_. 5) None dec_stmt_example dec_rp_example = Some False
   \<and> Verify (\<lambda>_. 5) (Some dec_proof_example) (dec_stmt_example\<lparr>st_N0 := 0\<rparr>) dec_rp_example = Some False
   \<and> Verify (\<lambda>_. 5) (Some dec_proof_W0) dec_stmt_example dec_rp_example = Some False
   \<and> Verify (\<lambda>_. 5) (Some dec_proof_example) dec_stmt_example dec_rp_example = Some True"
proof -
  have w: "dp_W dec_proof_W0 = 0" by (simp add: dec_proof_W0_def)
  have n: "st_N0 (dec_stmt_example\<lparr>st_N0 := 0\<rparr>) \<le> 0" by simp
  have h: "st_Q dec_stmt_example \<noteq> 0 \<and> rp_N dec_rp_example \<noteq> 0
           \<and> 0 \<le> dp_Z1 dec_proof_example \<and> 0 \<le> dp_Z2 dec_proof_example"
    by (simp add: dec_proof_example_def dec_stmt_example_def dec_rp_example_def)
  show ?thesis
    using Verify_rejects [of "\<lambda>_. 5" dec_stmt_example dec_rp_example "Some dec_proof_example" dec_proof_W0]
          Verify_rejects [of "\<lambda>_. 5" "dec_stmt_example\<lparr>st_N0 := 0\<rparr>" dec_rp_example "Some dec_proof_example" dec_proof_example]
          Verify_rejects [of "\<lambda>_. 5" dec_stmt_example dec_rp_example "Some dec_proof_example" dec_proof_example]
          w n h dec_example_accepts
    by simp
qed

section \<open>The Dec proof: completeness\<close>














section \<open>Serialization of proof arrays\<close>

lemma bytes_of_nat_decode:
  "foldl (\<lambda>acc b. acc * 256 + unat b) 0 (bytes_of_nat n) = n"
proof (induction n rule: bytes_of_nat.induct)
  case (1 n)
  show ?case
  proof (cases "n = 0")
    case True
    then show ?thesis by (simp add: bytes_of_nat.simps)
  next
    case False
    have u: "unat (of_nat (n mod 256) :: byte) = n mod 256"
      by (simp add: unat_of_nat)
    have "bytes_of_nat n = bytes_of_nat (n div 256) @ [of_nat (n mod 256)]"
      using False by (subst bytes_of_nat.simps) simp
    then show ?thesis using 1 False by (simp add: u)
  qed
qed

lemma bytes_of_nat_empty: "bytes_of_nat n = [] \<longleftrightarrow> n = 0"
  by (subst bytes_of_nat.simps) simp

lemma big_SetBytes_Bytes: "big_SetBytes (big_Bytes x) = \<bar>x\<bar>"
  by (simp add: big_SetBytes_def big_Bytes_def bytes_of_nat_decode)

lemma NonEmptyBytes_big_Bytes: "NonEmptyBytes (big_Bytes x) \<longleftrightarrow> x \<noteq> 0"
  by (simp add: NonEmptyBytes_def big_Bytes_def bytes_of_nat_empty)

lemma length_Bytes: "length (Bytes p) = 7"
  by (simp add: Bytes_def)

lemma NonEmptyMultiBytes_Bytes:
  "NonEmptyMultiBytes (Bytes p) 7 \<longleftrightarrow>
     dp_S p \<noteq> 0 \<and> dp_T p \<noteq> 0 \<and> dp_A p \<noteq> 0 \<and> dp_Gamma p \<noteq> 0
     \<and> dp_Z1 p \<noteq> 0 \<and> dp_Z2 p \<noteq> 0 \<and> dp_W p \<noteq> 0"
  by (simp add: NonEmptyMultiBytes_def Bytes_def NonEmptyBytes_big_Bytes)

lemma ProofFromBytes_Bytes:
  assumes "positive_proof p"
  shows "ProofFromBytes (Bytes p) = Inr p"
proof -
  have ne: "NonEmptyMultiBytes (Bytes p) 7"
    using assms by (simp add: NonEmptyMultiBytes_Bytes positive_proof_def)
  have "\<lparr> dp_S = \<bar>dp_S p\<bar>, dp_T = \<bar>dp_T p\<bar>, dp_A = \<bar>dp_A p\<bar>, dp_Gamma = \<bar>dp_Gamma p\<bar>,
          dp_Z1 = \<bar>dp_Z1 p\<bar>, dp_Z2 = \<bar>dp_Z2 p\<bar>, dp_W = \<bar>dp_W p\<bar> \<rparr> = p"
    using assms by (simp add: positive_proof_def)
  then show ?thesis
    using ne by (simp add: ProofFromBytes_def DecProofParts_def Bytes_def big_SetBytes_Bytes)
qed

lemma NonEmptyMultiBytes_replicate: "\<not> NonEmptyMultiBytes (replicate 7 []) 7"
  by (simp add: NonEmptyMultiBytes_def NonEmptyBytes_def numeral_eq_Suc)

lemma FromBytes_loop_Cons:
  "ProofArrayFromBytes_loop parts bzs (p # ps) =
     (if NonEmptyMultiBytes (take parts (drop (p * parts) bzs))
           (length (take parts (drop (p * parts) bzs))) then
        (case ProofFromBytes (take parts (drop (p * parts) bzs)) of
           Inl err \<Rightarrow> Inl err
         | Inr proof \<Rightarrow>
             (case ProofArrayFromBytes_loop parts bzs ps of
                Inl err \<Rightarrow> Inl err
              | Inr proofs \<Rightarrow> Inr (Some proof # proofs)))
      else
        (case ProofArrayFromBytes_loop parts bzs ps of
           Inl err \<Rightarrow> Inl err
         | Inr proofs \<Rightarrow> Inr (None # proofs)))"
  by (simp add: Let_def)

lemma FromBytes_loop_shift:
  "ProofArrayFromBytes_loop parts bzs (map Suc ps)
     = ProofArrayFromBytes_loop parts (drop parts bzs) ps"
proof (induction ps)
  case Nil
  then show ?case by simp
next
  case (Cons p ps)
  have d: "drop (Suc p * parts) bzs = drop (p * parts) (drop parts bzs)"
    by (simp add: add.commute)
  show ?case
    by (simp only: list.map FromBytes_loop_Cons d Cons.IH)
qed

lemma length_ToBytes_loop:
  "length (ProofArrayToBytes_loop 7 A) = 7 * length A"
  by (induction A) (simp_all add: IsNil_def length_Bytes)

lemma FromBytes_ToBytes_loop:
  assumes "list_all encodable A"
  shows "ProofArrayFromBytes_loop 7 (ProofArrayToBytes_loop 7 A) [0..<length A] = Inr A"
  using assms
proof (induction A)
  case Nil
  then show ?case by simp
next
  case (Cons a A)
  let ?chunk = "if IsNil a then replicate 7 [] else Bytes (the a)"
  let ?rest = "ProofArrayToBytes_loop 7 A"
  have len: "length ?chunk = 7" by (simp add: length_Bytes)
  have idx: "[0..<Suc (length A)] = 0 # map Suc [0..<length A]"
    by (simp add: upt_conv_Cons map_Suc_upt del: upt_Suc)
  have tl: "ProofArrayFromBytes_loop 7 (?chunk @ ?rest) (map Suc [0..<length A]) = Inr A"
    using Cons by (simp add: FromBytes_loop_shift len del: replicate.simps)
  have sl: "take 7 (?chunk @ ?rest) = ?chunk" using len by simp
  show ?case
  proof (cases a)
    case None
    then show ?thesis
      using tl sl NonEmptyMultiBytes_replicate
      by (simp add: idx FromBytes_loop_Cons IsNil_def
          del: upt_Suc replicate.simps ProofArrayFromBytes_loop.simps)
  next
    case (Some p)
    then have pos: "positive_proof p" using Cons.prems by (simp add: encodable_def)
    then have ne: "NonEmptyMultiBytes (Bytes p) 7"
      by (simp add: NonEmptyMultiBytes_Bytes positive_proof_def)
    show ?thesis
      using Some tl sl ne ProofFromBytes_Bytes [OF pos]
      by (simp add: idx FromBytes_loop_Cons IsNil_def length_Bytes
          del: upt_Suc ProofArrayFromBytes_loop.simps)
  qed
qed

text \<open>
  C4 (amended). For every array of Dec proofs whose entries are nil or have seven positive
  components, \<open>ProofArrayFromBytes (ProofArrayToBytes A)\<close> succeeds and returns \<open>A\<close>: nil
  entries come back nil and the other proofs come back equal.
\<close>

theorem ProofArray_roundtrip_positive:
  assumes "list_all encodable A"
  shows "ProofArrayFromBytes (ProofArrayToBytes A) = Inr A"
proof (cases "A = []")
  case True
  then show ?thesis
    by (simp add: ProofArrayFromBytes_def ProofArrayToBytes_def Parts_def DecProofParts_def)
next
  case False
  have "length (ProofArrayToBytes_loop 7 A) div 7 = length A"
       "length (ProofArrayToBytes_loop 7 A) mod 7 = 0"
    by (simp_all add: length_ToBytes_loop)
  then show ?thesis
    using False FromBytes_ToBytes_loop [OF assms]
    by (simp add: ProofArrayFromBytes_def ProofArrayToBytes_def Parts_def DecProofParts_def Let_def)
qed

theorem ProofArray_roundtrip_positive_witness:
  "list_all encodable [Some dec_proof_positive, None, Some dec_proof_positive]
   \<and> ProofArrayFromBytes (ProofArrayToBytes [Some dec_proof_positive, None, Some dec_proof_positive])
       = Inr [Some dec_proof_positive, None, Some dec_proof_positive]"
proof -
  have e: "list_all encodable [Some dec_proof_positive, None, Some dec_proof_positive]"
    by (simp add: encodable_def positive_proof_def dec_proof_positive_def)
  show ?thesis using ProofArray_roundtrip_positive [OF e] e by simp
qed

text \<open>
  C4 (as stated). The claim has the round trip return every array. A component equal to
  \<open>0\<close> is encoded as the empty slice, and a proof with an empty slice is decoded as nil:
  the one-element array holding the example proof, whose \<open>Gamma\<close> is \<open>0\<close>, comes back as
  an array holding nil.
\<close>

theorem ProofArray_roundtrip_zero_counterexample:
  "dp_Gamma dec_proof_example = 0
   \<and> ProofArrayFromBytes (ProofArrayToBytes [Some dec_proof_example]) = Inr [None]
   \<and> ProofArrayFromBytes (ProofArrayToBytes [Some dec_proof_example]) \<noteq> Inr [Some dec_proof_example]"
proof -
  have ne: "\<not> NonEmptyMultiBytes (Bytes dec_proof_example) 7"
    by (simp add: NonEmptyMultiBytes_Bytes dec_proof_example_def)
  have "ProofArrayFromBytes (ProofArrayToBytes [Some dec_proof_example]) = Inr [None]"
    using ne
    by (simp add: ProofArrayFromBytes_def ProofArrayToBytes_def Parts_def DecProofParts_def
        Let_def IsNil_def length_Bytes)
  then show ?thesis by (simp add: dec_proof_example_def)
qed

section \<open>Paillier: ciphertexts that decryption rejects\<close>

text \<open>
  C8. For every private key with modulus \<open>N\<close>, \<open>Decrypt\<close> and \<open>DecryptFull\<close> return the
  error \<open>InvalidCiphertext\<close>, and so no plaintext, for every \<open>c \<ge> N^2\<close> and every \<open>c\<close>
  that is not coprime to \<open>N^2\<close>; in particular for \<open>c = N\<close>.
\<close>

theorem Decrypt_rejects_invalid:
  "(NSquare (sk_N sk) \<le> c \<or> gcd c (NSquare (sk_N sk)) \<noteq> 1 \<longrightarrow>
      Decrypt sk c = Inl InvalidCiphertext \<and> DecryptFull recover sk c = Inl InvalidCiphertext)
   \<and> Decrypt sk (sk_N sk) = Inl InvalidCiphertext
   \<and> DecryptFull recover sk (sk_N sk) = Inl InvalidCiphertext"
proof -
  have a: "Decrypt sk c = Inl InvalidCiphertext"
    if "NSquare (sk_N sk) \<le> c \<or> gcd c (NSquare (sk_N sk)) \<noteq> 1" for c
    using that by (auto simp: Decrypt_def Let_def)
  have b: "DecryptFull recover sk c = Inl InvalidCiphertext"
    if "Decrypt sk c = Inl InvalidCiphertext" for c
    using that by (simp add: DecryptFull_def)
  have n: "Decrypt sk (sk_N sk) = Inl InvalidCiphertext"
  proof (cases "sk_N sk < 0 \<or> NSquare (sk_N sk) \<le> sk_N sk")
    case True
    then show ?thesis by (auto simp: Decrypt_def Let_def)
  next
    case False
    then have "1 < sk_N sk" by (cases "sk_N sk = 0"; cases "sk_N sk = 1") (auto simp: NSquare_def)
    then have "gcd (sk_N sk) (NSquare (sk_N sk)) \<noteq> 1" by (simp add: NSquare_def)
    then show ?thesis by (rule a [OF disjI2])
  qed
  show ?thesis using a b n by blast
qed

theorem Decrypt_rejects_invalid_witness:
  "Decrypt paillier_key_example 15 = Inl InvalidCiphertext
   \<and> DecryptFull (\<lambda>_ _ _. 1) paillier_key_example 15 = Inl InvalidCiphertext
   \<and> Decrypt paillier_key_example 225 = Inl InvalidCiphertext
   \<and> Decrypt paillier_key_example 10 = Inl InvalidCiphertext
   \<and> Decrypt paillier_key_example 151 = Inr 10"
proof -
  have g: "gcd (10::int) 225 \<noteq> 1" by code_simp
  have "gcd (151::int) 225 = 1" by code_simp
  then have d: "Decrypt paillier_key_example 151 = Inr 10"
    by (simp add: Decrypt_def paillier_key_example_def NSquare_def L_def Let_def)
  show ?thesis
    using Decrypt_rejects_invalid [of paillier_key_example 225 "\<lambda>_ _ _. 1"]
          Decrypt_rejects_invalid [of paillier_key_example 10 "\<lambda>_ _ _. 1"] g d
    by (simp add: paillier_key_example_def NSquare_def)
qed

end
